theory Spec2Isabelle
  imports Main "HOL-Library.Sublist"
begin

section \<open>Go strings and the string functions the renderer calls\<close>

text \<open>
  A Go string is a sequence of bytes, so it is modelled as \<open>string\<close> (a list of 8-bit
  characters). Source literals outside ASCII are written as their UTF-8 bytes.
\<close>

abbreviation NL :: char where "NL \<equiv> CHR 0x0A"
abbreviation TAB :: char where "TAB \<equiv> CHR 0x09"
abbreviation SP :: char where "SP \<equiv> CHR 0x20"
abbreviation ESC :: char where "ESC \<equiv> CHR 0x1B"

text \<open>\<open>strings.Split(s, sep)\<close> for a one-byte separator; \<open>Split("", sep)\<close> is \<open>[""]\<close>.\<close>

fun Split :: "string \<Rightarrow> char \<Rightarrow> string list" where
  "Split [] sep = [[]]"
| "Split (c # cs) sep =
     (if c = sep then [] # Split cs sep
      else (case Split cs sep of [] \<Rightarrow> [[c]] | l # ls \<Rightarrow> (c # l) # ls))"

text \<open>\<open>strings.Join(elems, sep)\<close>.\<close>

fun Join :: "string list \<Rightarrow> string \<Rightarrow> string" where
  "Join [] sep = []"
| "Join [l] sep = l"
| "Join (l # m # ls) sep = l @ sep @ Join (m # ls) sep"

text \<open>\<open>strings.TrimRight(s, cutset)\<close> for an ASCII cutset: bytes of the cutset are removed
  from the end.\<close>

definition TrimRight :: "string \<Rightarrow> string \<Rightarrow> string" where
  "TrimRight s cutset = rev (dropWhile (\<lambda>c. c \<in> set cutset) (rev s))"

text \<open>\<open>strings.Repeat(s, count)\<close> for a count that is not negative.\<close>

definition Repeat :: "string \<Rightarrow> nat \<Rightarrow> string" where
  "Repeat s n = concat (replicate n s)"


text \<open>
  \<open>strings.TrimSpace(s)\<close> removes the leading and the trailing runes for which
  \<open>unicode.IsSpace\<close> holds. A leading (trailing) rune of a byte string is such a rune
  exactly when the string starts (ends) with its UTF-8 encoding, so the function is
  modelled on bytes with the encodings of those code points: U+0009 to U+000D, U+0020,
  U+0085, U+00A0, U+1680, U+2000 to U+200A, U+2028, U+2029, U+202F, U+205F, U+3000.
\<close>

definition unicodeSpaces :: "string list" where
  "unicodeSpaces =
    [[CHR 0x09], [CHR 0x0A], [CHR 0x0B], [CHR 0x0C], [CHR 0x0D], [CHR 0x20],
     [CHR 0xC2, CHR 0x85], [CHR 0xC2, CHR 0xA0],
     [CHR 0xE1, CHR 0x9A, CHR 0x80],
     [CHR 0xE2, CHR 0x80, CHR 0x80], [CHR 0xE2, CHR 0x80, CHR 0x81],
     [CHR 0xE2, CHR 0x80, CHR 0x82], [CHR 0xE2, CHR 0x80, CHR 0x83],
     [CHR 0xE2, CHR 0x80, CHR 0x84], [CHR 0xE2, CHR 0x80, CHR 0x85],
     [CHR 0xE2, CHR 0x80, CHR 0x86], [CHR 0xE2, CHR 0x80, CHR 0x87],
     [CHR 0xE2, CHR 0x80, CHR 0x88], [CHR 0xE2, CHR 0x80, CHR 0x89],
     [CHR 0xE2, CHR 0x80, CHR 0x8A],
     [CHR 0xE2, CHR 0x80, CHR 0xA8], [CHR 0xE2, CHR 0x80, CHR 0xA9],
     [CHR 0xE2, CHR 0x80, CHR 0xAF],
     [CHR 0xE2, CHR 0x81, CHR 0x9F],
     [CHR 0xE3, CHR 0x80, CHR 0x80]]"

definition leadingSpace :: "string \<Rightarrow> string option" where
  "leadingSpace s = find (\<lambda>p. prefix p s) unicodeSpaces"

definition trailingSpace :: "string \<Rightarrow> string option" where
  "trailingSpace s = find (\<lambda>p. suffix p s) unicodeSpaces"

function trimLeftSpace :: "string \<Rightarrow> string" where
  "trimLeftSpace s =
     (case leadingSpace s of
        None \<Rightarrow> s
      | Some p \<Rightarrow> trimLeftSpace (drop (length p) s))"
  by pat_completeness auto
termination
proof (relation "measure length")
  show "wf (measure length)" by simp
next
  fix s :: string and p :: string
  assume "leadingSpace s = Some p"
  then have "prefix p s" and "p \<in> set unicodeSpaces"
    by (auto simp: leadingSpace_def find_Some_iff)
  moreover have "\<forall>q \<in> set unicodeSpaces. q \<noteq> []"
    by (simp add: unicodeSpaces_def)
  ultimately have "prefix p s" and "p \<noteq> []" by auto
  then show "(drop (length p) s, s) \<in> measure length"
    by (cases s) (auto simp: prefix_def)
qed

function trimRightSpace :: "string \<Rightarrow> string" where
  "trimRightSpace s =
     (case trailingSpace s of
        None \<Rightarrow> s
      | Some p \<Rightarrow> trimRightSpace (take (length s - length p) s))"
  by pat_completeness auto
termination
proof (relation "measure length")
  show "wf (measure length)" by simp
next
  fix s :: string and p :: string
  assume "trailingSpace s = Some p"
  then have "suffix p s" and "p \<in> set unicodeSpaces"
    by (auto simp: trailingSpace_def find_Some_iff)
  moreover have "\<forall>q \<in> set unicodeSpaces. q \<noteq> []"
    by (simp add: unicodeSpaces_def)
  ultimately have "suffix p s" and "p \<noteq> []" by auto
  then show "(take (length s - length p) s, s) \<in> measure length"
    by (cases s) (auto simp: suffix_def)
qed

definition TrimSpace :: "string \<Rightarrow> string" where
  "TrimSpace s = trimRightSpace (trimLeftSpace s)"

declare trimLeftSpace.simps [simp del] trimRightSpace.simps [simp del]

text \<open>
  \<open>strings.ToLower(s)\<close>: a string of ASCII bytes is lowered byte by byte. Any other
  string goes through the Unicode case tables of the Go library, which are not part of
  the repository: that mapping is the parameter \<open>unicodeLower\<close>.
\<close>

definition isASCII :: "string \<Rightarrow> bool" where
  "isASCII s = (\<forall>c \<in> set s. of_char c < (128::nat))"

definition isUpperASCII :: "char \<Rightarrow> bool" where
  "isUpperASCII c = (65 \<le> (of_char c :: nat) \<and> (of_char c :: nat) \<le> 90)"

definition lowerASCII :: "char \<Rightarrow> char" where
  "lowerASCII c = (if isUpperASCII c then char_of (of_char c + (32::nat)) else c)"

definition ToLower :: "(string \<Rightarrow> string) \<Rightarrow> string \<Rightarrow> string" where
  "ToLower unicodeLower s = (if isASCII s then map lowerASCII s else unicodeLower s)"

section \<open>Text helpers (styles.go)\<close>

definition H1Prefix :: string where "H1Prefix = ''# ''"
definition H2Prefix :: string where "H2Prefix = ''## ''"
definition H3Prefix :: string where "H3Prefix = ''### ''"
definition H4Prefix :: string where "H4Prefix = ''#### ''"
definition H5Prefix :: string where "H5Prefix = ''##### ''"
definition H6Prefix :: string where "H6Prefix = ''###### ''"

definition Indent :: "string \<Rightarrow> int \<Rightarrow> string" where
  "Indent text level =
     (if level \<le> 0 then text
      else let indent = Repeat ''  '' (nat level);
               lines = Split text NL
           in Join (map (\<lambda>line. if TrimSpace line \<noteq> [] then indent @ line else line) lines)
                [NL])"

definition TrimTrailingWhitespace :: "string \<Rightarrow> string" where
  "TrimTrailingWhitespace text =
     Join (map (\<lambda>line. TrimRight line [SP, TAB]) (Split text NL)) [NL]"

definition EnsureTrailingNewline :: "string \<Rightarrow> string" where
  "EnsureTrailingNewline text = TrimRight text [NL] @ [NL]"

section \<open>Theme manager (theme.go)\<close>

text \<open>A \<open>ColorKey\<close> is a string; the constants of package \<open>theme\<close> carry its name.\<close>

type_synonym ColorKey = string

definition theme_Header1 :: ColorKey where "theme_Header1 = ''header1''"
definition theme_Header2 :: ColorKey where "theme_Header2 = ''header2''"
definition theme_Header3 :: ColorKey where "theme_Header3 = ''header3''"
definition theme_Header4 :: ColorKey where "theme_Header4 = ''header4''"
definition theme_Header5 :: ColorKey where "theme_Header5 = ''header5''"
definition theme_Header6 :: ColorKey where "theme_Header6 = ''header6''"
definition theme_Bold :: ColorKey where "theme_Bold = ''bold''"
definition theme_Italic :: ColorKey where "theme_Italic = ''italic''"
definition theme_Strikethrough :: ColorKey where "theme_Strikethrough = ''strikethrough''"
definition theme_Code :: ColorKey where "theme_Code = ''code''"
definition theme_BlockQuote :: ColorKey where "theme_BlockQuote = ''blockquote''"
definition theme_Link :: ColorKey where "theme_Link = ''link''"
definition theme_BulletPoint :: ColorKey where "theme_BulletPoint = ''bullet''"
definition theme_OrderedList :: ColorKey where "theme_OrderedList = ''ordered''"
definition theme_TableHeader :: ColorKey where "theme_TableHeader = ''table_header''"
definition theme_TableBorder :: ColorKey where "theme_TableBorder = ''table_border''"
definition theme_Reset :: ColorKey where "theme_Reset = ''reset''"

record ThemeManager =
  colors :: "string \<rightharpoonup> string"

text \<open>Reading a Go map at a missing key gives the empty string.\<close>

definition GetColor :: "ThemeManager \<Rightarrow> ColorKey \<Rightarrow> string" where
  "GetColor tm key =
     (case colors tm key of
        Some color \<Rightarrow> color
      | None \<Rightarrow> (case colors tm theme_Reset of Some color \<Rightarrow> color | None \<Rightarrow> []))"

definition Style :: "ThemeManager \<Rightarrow> string \<Rightarrow> ColorKey \<Rightarrow> string" where
  "Style tm text key = GetColor tm key @ text @ GetColor tm theme_Reset"

definition StyleNoReset :: "ThemeManager \<Rightarrow> string \<Rightarrow> ColorKey \<Rightarrow> string" where
  "StyleNoReset tm text key = GetColor tm key @ text"

definition Reset :: "ThemeManager \<Rightarrow> string" where
  "Reset tm = GetColor tm theme_Reset"

definition buildDarkColorScheme :: "string \<rightharpoonup> string" where
  "buildDarkColorScheme = map_of
    [(theme_Header1, ESC # ''[1;96m''),
     (theme_Header2, ESC # ''[1;94m''),
     (theme_Header3, ESC # ''[1;95m''),
     (theme_Header4, ESC # ''[1;93m''),
     (theme_Header5, ESC # ''[1;92m''),
     (theme_Header6, ESC # ''[1;91m''),
     (theme_Bold, ESC # ''[1m''),
     (theme_Italic, ESC # ''[3m''),
     (theme_Strikethrough, ESC # ''[9m''),
     (theme_Code, ESC # ''[38;5;208m''),
     (theme_BlockQuote, ESC # ''[38;5;244m''),
     (theme_Link, ESC # ''[4;94m''),
     (theme_BulletPoint, ESC # ''[1;97m''),
     (theme_OrderedList, ESC # ''[1;97m''),
     (theme_TableHeader, ESC # ''[1;97m''),
     (theme_TableBorder, ESC # ''[38;5;244m''),
     (theme_Reset, ESC # ''[0m'')]"

definition darkTheme :: ThemeManager where
  "darkTheme = \<lparr>colors = buildDarkColorScheme\<rparr>"

section \<open>Syntax highlighter (highlighter.go)\<close>

text \<open>
  \<open>ChromaHelper.Highlight\<close> runs the lexers and formatters of the Chroma library; it is
  a field of the highlighter, a function that returns the highlighted text (\<open>Inr\<close>) or an
  error message (\<open>Inl\<close>).
\<close>

record Highlighter =
  themeManager :: ThemeManager
  chromaHelper :: "string \<Rightarrow> string \<Rightarrow> string + string"

text \<open>The \<open>switch\<close> of \<open>normalizeLanguage\<close>, one pair per case label, in source order.\<close>

definition languageCases :: "(string \<times> string) list" where
  "languageCases =
    [(''js'', ''javascript''), (''javascript'', ''javascript''),
     (''ts'', ''typescript''), (''typescript'', ''typescript''),
     (''py'', ''python''), (''python'', ''python''),
     (''rb'', ''ruby''), (''ruby'', ''ruby''),
     (''sh'', ''bash''), (''bash'', ''bash''), (''shell'', ''bash''),
     (''yml'', ''yaml''), (''yaml'', ''yaml''),
     (''json'', ''json''),
     (''xml'', ''xml''), (''html'', ''html''),
     (''css'', ''css''),
     (''sql'', ''sql''),
     (''go'', ''go''), (''golang'', ''go''),
     (''rust'', ''rust''), (''rs'', ''rust''),
     (''c'', ''c''),
     (''cpp'', ''cpp''), (''c++'', ''cpp''), (''cxx'', ''cpp''),
     (''java'', ''java''),
     (''php'', ''php''),
     (''swift'', ''swift''),
     (''kotlin'', ''kotlin''), (''kt'', ''kotlin''),
     (''scala'', ''scala''),
     (''r'', ''r''),
     (''matlab'', ''matlab''),
     (''perl'', ''perl''),
     (''lua'', ''lua''),
     (''vim'', ''vim''),
     (''dockerfile'', ''dockerfile''), (''docker'', ''dockerfile''),
     (''makefile'', ''makefile''), (''make'', ''makefile''),
     (''diff'', ''diff''),
     (''plain'', ''text''), (''text'', ''text''), (''txt'', ''text'')]"

definition normalizeLanguage :: "(string \<Rightarrow> string) \<Rightarrow> string \<Rightarrow> string" where
  "normalizeLanguage unicodeLower language =
     (if language = [] then language
      else let lang = ToLower unicodeLower (TrimSpace language)
           in (case map_of languageCases lang of Some name \<Rightarrow> name | None \<Rightarrow> lang))"

definition Highlight ::
  "(string \<Rightarrow> string) \<Rightarrow> Highlighter \<Rightarrow> string \<Rightarrow> string \<Rightarrow> string + string" where
  "Highlight unicodeLower h code language =
     (if TrimSpace code = [] then Inr code
      else let language' = normalizeLanguage unicodeLower language
           in (case chromaHelper h code language' of
                 Inl err \<Rightarrow> Inr (Style (themeManager h) code theme_Code)
               | Inr highlighted \<Rightarrow> Inr highlighted))"

definition HighlightInlineCode :: "Highlighter \<Rightarrow> string \<Rightarrow> string" where
  "HighlightInlineCode h code = Style (themeManager h) code theme_Code"

section \<open>Document tree\<close>

text \<open>
  The nodes of the parsed tree, with the attributes the renderer reads. The node types of
  package \<open>ast\<close> that \<open>renderNode\<close> tells apart by type are constructors of their own;
  every other node is \<open>Ext name\<close>, \<open>name\<close> being its \<open>Kind().String()\<close> (the table,
  strikethrough and task list nodes of the extensions, \<open>TextBlock\<close>, \<open>Image\<close>, ...).
  Text read from the source buffer (segments, lines, the info string) is held by the node.
\<close>

datatype kind =
    Document
  | Heading (Level: int)
  | Paragraph
  | Text (Value: string) (IsRaw: bool) (HardLineBreak: bool) (SoftLineBreak: bool)
  | Emphasis (EmphasisLevel: int)
  | CodeSpan
  | FencedCodeBlock (Info: "string option") (FencedLines: "string list")
  | CodeBlock (Lines: "string list")
  | Blockquote
  | List (IsOrdered: bool)
  | ListItem
  | Link (Destination: string)
  | AutoLink (URL: string)
  | RawHTML
  | ThematicBreak
  | HTMLBlock
  | Ext string

datatype node = Node (Kind: kind) (Children: "node list")

fun kindString :: "kind \<Rightarrow> string" where
  "kindString Document = ''Document''"
| "kindString (Heading l) = ''Heading''"
| "kindString Paragraph = ''Paragraph''"
| "kindString (Text v r h s) = ''Text''"
| "kindString (Emphasis l) = ''Emphasis''"
| "kindString CodeSpan = ''CodeSpan''"
| "kindString (FencedCodeBlock i ls) = ''FencedCodeBlock''"
| "kindString (CodeBlock ls) = ''CodeBlock''"
| "kindString Blockquote = ''Blockquote''"
| "kindString (List ord) = ''List''"
| "kindString ListItem = ''ListItem''"
| "kindString (Link d) = ''Link''"
| "kindString (AutoLink u) = ''AutoLink''"
| "kindString RawHTML = ''RawHTML''"
| "kindString ThematicBreak = ''ThematicBreak''"
| "kindString HTMLBlock = ''HTMLBlock''"
| "kindString (Ext name) = name"

text \<open>\<open>n.Text(source)\<close>: the segment of a text node, the texts of the children otherwise.\<close>

fun nodeText :: "node \<Rightarrow> string" where
  "nodeText (Node k cs) =
     (case k of Text v r h s \<Rightarrow> v | _ \<Rightarrow> concat (map nodeText cs))"

text \<open>
  Where a node stands in the tree: the kinds of \<open>Parent()\<close>, \<open>Parent().Parent()\<close> and so
  on up to the root, and whether \<open>PreviousSibling()\<close> and \<open>NextSibling()\<close> are not nil.
\<close>

record position =
  ancestors :: "kind list"
  hasPrevious :: bool
  hasNext :: bool

section \<open>Renderer\<close>

text \<open>
  The writer is only appended to, so a handler is modelled by the text it writes. A call
  either returns (the handlers always return a nil error) or panics.
\<close>

datatype failure = Error string | Panic

record CodeHighlighter =
  hl_Highlight :: "string \<Rightarrow> string \<Rightarrow> string + string"
  hl_HighlightInlineCode :: "string \<Rightarrow> string"

definition renderDocument :: "bool \<Rightarrow> failure + string" where
  "renderDocument entering = Inr []"

definition renderHeading :: "ThemeManager \<Rightarrow> position \<Rightarrow> int \<Rightarrow> bool \<Rightarrow> failure + string" where
  "renderHeading tm pos level entering =
     (if entering then
        let (headerTheme, prefix) =
              (if level = 1 then (theme_Header1, H1Prefix)
               else if level = 2 then (theme_Header2, H2Prefix)
               else if level = 3 then (theme_Header3, H3Prefix)
               else if level = 4 then (theme_Header4, H4Prefix)
               else if level = 5 then (theme_Header5, H5Prefix)
               else (theme_Header6, H6Prefix))
        in Inr ((if hasPrevious pos then [NL] else []) @ StyleNoReset tm prefix headerTheme)
      else Inr (Reset tm @ [NL]))"

definition renderParagraph :: "position \<Rightarrow> bool \<Rightarrow> failure + string" where
  "renderParagraph pos entering =
     (if \<not> entering then Inr ([NL] @ (if hasNext pos then [NL] else []))
      else Inr [])"

text \<open>The loop of \<open>renderText\<close> over the lines of the segment; \<open>n\<close> is \<open>len(lines)\<close>.\<close>

fun textLines :: "bool \<Rightarrow> bool \<Rightarrow> nat \<Rightarrow> nat \<Rightarrow> string list \<Rightarrow> string" where
  "textLines hard soft n i [] = []"
| "textLines hard soft n i (line # rest) =
     (if i > 0 then (if hard \<or> (int i = int n - 1 \<and> soft) then [NL] else [SP]) else [])
     @ line @ textLines hard soft n (i + 1) rest"

definition renderText ::
  "position \<Rightarrow> string \<Rightarrow> bool \<Rightarrow> bool \<Rightarrow> bool \<Rightarrow> bool \<Rightarrow> failure + string" where
  "renderText pos val raw hard soft entering =
     (if entering then
        (case ancestors pos of
           CodeSpan # _ \<Rightarrow> Inr []
         | _ \<Rightarrow>
            if raw then Inr val
            else let lines = Split val NL
                 in Inr (textLines hard soft (length lines) 0 lines))
      else Inr [])"

definition renderEmphasis :: "ThemeManager \<Rightarrow> int \<Rightarrow> bool \<Rightarrow> failure + string" where
  "renderEmphasis tm level entering =
     (if entering then
        (if level = 2 then Inr (GetColor tm theme_Bold) else Inr (GetColor tm theme_Italic))
      else Inr (Reset tm))"

definition renderCodeSpan :: "CodeHighlighter \<Rightarrow> node \<Rightarrow> bool \<Rightarrow> failure + string" where
  "renderCodeSpan hl n entering =
     (if entering then Inr (hl_HighlightInlineCode hl (nodeText n)) else Inr [])"

definition renderFencedCodeBlock ::
  "ThemeManager \<Rightarrow> CodeHighlighter \<Rightarrow> string option \<Rightarrow> string list \<Rightarrow> bool \<Rightarrow> failure + string"
  where
  "renderFencedCodeBlock tm hl info lines entering =
     (if entering then
        let language = (case info of None \<Rightarrow> [] | Some i \<Rightarrow> i);
            code = concat lines;
            highlighted = (case hl_Highlight hl code language of
                             Inl err \<Rightarrow> Style tm code theme_Code
                           | Inr h \<Rightarrow> h)
        in Inr ([NL] @ Indent (TrimRight highlighted [NL]) 1 @ [NL, NL])
      else Inr [])"

definition renderCodeBlock :: "ThemeManager \<Rightarrow> string list \<Rightarrow> bool \<Rightarrow> failure + string" where
  "renderCodeBlock tm lines entering =
     (if entering then
        let code = concat lines;
            styled = Style tm code theme_Code
        in Inr ([NL] @ Indent (TrimRight styled [NL]) 1 @ [NL, NL])
      else Inr [])"

definition renderBlockquote :: "ThemeManager \<Rightarrow> bool \<Rightarrow> failure + string" where
  "renderBlockquote tm entering =
     (if entering then
        Inr ([NL] @ GetColor tm theme_BlockQuote @ [CHR 0xE2, CHR 0x94, CHR 0x82, SP])
      else Inr (Reset tm @ [NL, NL]))"

definition renderList :: "position \<Rightarrow> bool \<Rightarrow> failure + string" where
  "renderList pos entering =
     (if entering then Inr (if hasPrevious pos then [NL] else [])
      else Inr (if hasNext pos then [NL] else []))"

text \<open>The loop of \<open>renderListItem\<close> up the parents, counting the lists.\<close>

fun countLists :: "kind list \<Rightarrow> int \<Rightarrow> int" where
  "countLists [] level = level"
| "countLists (parent # up) level =
     countLists up (case parent of List ord \<Rightarrow> level + 1 | _ \<Rightarrow> level)"

text \<open>\<open>strings.Repeat\<close> panics on a negative count.\<close>

definition renderListItem :: "ThemeManager \<Rightarrow> position \<Rightarrow> bool \<Rightarrow> failure + string" where
  "renderListItem tm pos entering =
     (if entering then
        let level = countLists (ancestors pos) 0 - 1
        in if level < 0 then Inl Panic
           else
             let indent = Repeat ''  '' (nat level);
                 marker = (case ancestors pos of
                             List ord # _ \<Rightarrow>
                               if ord then Style tm ''1.'' theme_OrderedList
                               else Style tm [CHR 0xE2, CHR 0x80, CHR 0xA2] theme_BulletPoint
                           | _ \<Rightarrow> Style tm [CHR 0xE2, CHR 0x80, CHR 0xA2] theme_BulletPoint)
             in Inr ([CHR 0xC2, CHR 0xA0] @ indent @ marker @ [SP])
      else Inr [NL])"

definition renderLink :: "ThemeManager \<Rightarrow> string \<Rightarrow> bool \<Rightarrow> failure + string" where
  "renderLink tm destination entering =
     (if entering then Inr (GetColor tm theme_Link)
      else Inr (('' ('' @ destination @ '')'') @ Reset tm))"

definition renderAutoLink :: "ThemeManager \<Rightarrow> string \<Rightarrow> bool \<Rightarrow> failure + string" where
  "renderAutoLink tm url entering =
     (if entering then Inr (Style tm url theme_Link) else Inr [])"

definition renderRawHTML :: "bool \<Rightarrow> failure + string" where
  "renderRawHTML entering = Inr []"

definition renderHTMLBlock :: "bool \<Rightarrow> failure + string" where
  "renderHTMLBlock entering = Inr []"

definition renderThematicBreak :: "ThemeManager \<Rightarrow> bool \<Rightarrow> failure + string" where
  "renderThematicBreak tm entering =
     (if entering then
        let rule = Repeat [CHR 0xE2, CHR 0x94, CHR 0x80] 50
        in Inr ([NL] @ Style tm rule theme_TableBorder @ [NL, NL])
      else Inr [])"

definition renderTable :: "bool \<Rightarrow> failure + string" where
  "renderTable entering = (if entering then Inr [NL] else Inr [NL])"

definition renderTableHeader :: "bool \<Rightarrow> failure + string" where
  "renderTableHeader entering = Inr []"

text \<open>The loop of \<open>renderTableRow\<close> that draws the line under a header row.\<close>

definition separatorSegments :: "nat \<Rightarrow> string" where
  "separatorSegments cellCount =
     concat (map (\<lambda>i. [CHR 0xE2, CHR 0x94, CHR 0x9C]
                      @ Repeat [CHR 0xE2, CHR 0x94, CHR 0x80] 15
                      @ (if int i < int cellCount - 1 then [CHR 0xE2, CHR 0x94, CHR 0xBC] else []))
               [0..<cellCount])"

definition renderTableRow :: "ThemeManager \<Rightarrow> node \<Rightarrow> bool \<Rightarrow> failure + string" where
  "renderTableRow tm n entering =
     (if entering then Inr (GetColor tm theme_TableBorder @ [CHR 0xE2, CHR 0x94, CHR 0x82])
      else Inr (Reset tm @ [NL] @
             (if kindString (Kind n) = ''TableHeader'' then
                let cellCount = length (Children n)
                in GetColor tm theme_TableBorder
                   @ separatorSegments cellCount
                   @ [CHR 0xE2, CHR 0x94, CHR 0xA4]
                   @ Reset tm @ [NL]
              else [])))"

text \<open>\<open>node.Parent().Kind()\<close> panics when the node has no parent.\<close>

definition renderTableCell :: "ThemeManager \<Rightarrow> position \<Rightarrow> bool \<Rightarrow> failure + string" where
  "renderTableCell tm pos entering =
     (case ancestors pos of
        [] \<Rightarrow> Inl Panic
      | parent # _ \<Rightarrow>
          if entering then
            Inr ([SP] @ (if kindString parent = ''TableHeader''
                         then GetColor tm theme_TableHeader else []))
          else
            Inr ((if kindString parent = ''TableHeader'' then Reset tm else [])
                 @ Repeat [SP] 14
                 @ GetColor tm theme_TableBorder
                 @ [CHR 0xE2, CHR 0x94, CHR 0x82]))"

definition renderStrikethrough :: "ThemeManager \<Rightarrow> bool \<Rightarrow> failure + string" where
  "renderStrikethrough tm entering =
     (if entering then Inr (GetColor tm theme_Strikethrough) else Inr (Reset tm))"

definition renderTaskCheckBox :: "ThemeManager \<Rightarrow> bool \<Rightarrow> failure + string" where
  "renderTaskCheckBox tm entering =
     (if entering then Inr (Style tm ''[ ]'' theme_BulletPoint @ [SP]) else Inr [])"

definition renderNode ::
  "ThemeManager \<Rightarrow> CodeHighlighter \<Rightarrow> position \<Rightarrow> node \<Rightarrow> bool \<Rightarrow> failure + string" where
  "renderNode tm hl pos n entering =
     (case Kind n of
        Document \<Rightarrow> renderDocument entering
      | Heading level \<Rightarrow> renderHeading tm pos level entering
      | Paragraph \<Rightarrow> renderParagraph pos entering
      | Text val raw hard soft \<Rightarrow> renderText pos val raw hard soft entering
      | Emphasis level \<Rightarrow> renderEmphasis tm level entering
      | CodeSpan \<Rightarrow> renderCodeSpan hl n entering
      | FencedCodeBlock info lines \<Rightarrow> renderFencedCodeBlock tm hl info lines entering
      | CodeBlock lines \<Rightarrow> renderCodeBlock tm lines entering
      | Blockquote \<Rightarrow> renderBlockquote tm entering
      | List ord \<Rightarrow> renderList pos entering
      | ListItem \<Rightarrow> renderListItem tm pos entering
      | Link destination \<Rightarrow> renderLink tm destination entering
      | AutoLink url \<Rightarrow> renderAutoLink tm url entering
      | RawHTML \<Rightarrow> renderRawHTML entering
      | ThematicBreak \<Rightarrow> renderThematicBreak tm entering
      | HTMLBlock \<Rightarrow> renderHTMLBlock entering
      | Ext name \<Rightarrow>
          if name = ''Table'' then renderTable entering
          else if name = ''TableHeader'' then renderTableHeader entering
          else if name = ''TableRow'' then renderTableRow tm n entering
          else if name = ''TableCell'' then renderTableCell tm pos entering
          else if name = ''Strikethrough'' then renderStrikethrough tm entering
          else if name = ''TaskCheckBox'' then renderTaskCheckBox tm entering
          else Inr [])"

text \<open>
  \<open>ast.Walk\<close> with the callback of \<open>render\<close>: the handler on entering, the children in
  document order, the handler on leaving; the first failure stops the walk. The result is
  the text written for the subtree.
\<close>

fun walk ::
  "ThemeManager \<Rightarrow> CodeHighlighter \<Rightarrow> position \<Rightarrow> node \<Rightarrow> failure + string"
and walkChildren ::
  "ThemeManager \<Rightarrow> CodeHighlighter \<Rightarrow> kind list \<Rightarrow> bool \<Rightarrow> node list \<Rightarrow> failure + string"
where
  "walk tm hl pos (Node k cs) =
     (case renderNode tm hl pos (Node k cs) True of
        Inl e \<Rightarrow> Inl e
      | Inr opened \<Rightarrow>
          (case walkChildren tm hl (k # ancestors pos) False cs of
             Inl e \<Rightarrow> Inl e
           | Inr inner \<Rightarrow>
               (case renderNode tm hl pos (Node k cs) False of
                  Inl e \<Rightarrow> Inl e
                | Inr closed \<Rightarrow> Inr (opened @ inner @ closed))))"
| "walkChildren tm hl up prev [] = Inr []"
| "walkChildren tm hl up prev (c # rest) =
     (case walk tm hl \<lparr>ancestors = up, hasPrevious = prev, hasNext = (rest \<noteq> [])\<rparr> c of
        Inl e \<Rightarrow> Inl e
      | Inr first \<Rightarrow>
          (case walkChildren tm hl up True rest of
             Inl e \<Rightarrow> Inl e
           | Inr others \<Rightarrow> Inr (first @ others)))"

text \<open>\<open>render\<close> appends the text of the walk to the buffer it is given.\<close>

definition render ::
  "ThemeManager \<Rightarrow> CodeHighlighter \<Rightarrow> string \<Rightarrow> node \<Rightarrow> failure + string" where
  "render tm hl buf doc =
     (case walk tm hl \<lparr>ancestors = [], hasPrevious = False, hasNext = False\<rparr> doc of
        Inl e \<Rightarrow> Inl e
      | Inr written \<Rightarrow> Inr (buf @ written))"

text \<open>
  \<open>RenderContent\<close>; the goldmark parser is the field \<open>goldmark\<close> of the renderer, a
  function from the content to the root of the parsed tree.
\<close>

record Renderer =
  rendererThemeManager :: ThemeManager
  goldmark :: "string \<Rightarrow> node"

definition RenderContent :: "Renderer \<Rightarrow> string \<Rightarrow> CodeHighlighter \<Rightarrow> failure + string" where
  "RenderContent r content highlighter =
     (let doc = goldmark r content
      in case render (rendererThemeManager r) highlighter [] doc of
           Inl (Error err) \<Rightarrow> Inl (Error (''failed to render markdown: '' @ err))
         | Inl Panic \<Rightarrow> Inl Panic
         | Inr buf \<Rightarrow>
             let result = TrimTrailingWhitespace buf;
                 result = EnsureTrailingNewline result
             in Inr result)"

section \<open>Notions used in the statements\<close>

text \<open>Every line of the text is free of trailing spaces and tabs.\<close>

definition linesTrimmed :: "string \<Rightarrow> bool" where
  "linesTrimmed s = (\<forall>l \<in> set (Split s NL). TrimRight l [SP, TAB] = l)"

text \<open>
  The places where a handler panics: a list item with no list above it (the indentation
  count is negative) and a table cell with no parent. A tree is well placed when it has no
  such node; the trees of the parser are.
\<close>

fun wellPlaced :: "kind list \<Rightarrow> node \<Rightarrow> bool" where
  "wellPlaced up (Node k cs) =
     ((k = ListItem \<longrightarrow> List True \<in> set up \<or> List False \<in> set up)
      \<and> (k = Ext ''TableCell'' \<longrightarrow> up \<noteq> [])
      \<and> (\<forall>c \<in> set cs. wellPlaced (k # up) c))"

text \<open>The list-nesting depth of a node: the number of lists above it.\<close>

definition isList :: "kind \<Rightarrow> bool" where
  "isList k = (case k of List ord \<Rightarrow> True | _ \<Rightarrow> False)"

definition listDepth :: "kind list \<Rightarrow> nat" where
  "listDepth up = length (filter isList up)"

text \<open>
  The nodes whose entering handler switches a style on (headings, emphasis, links,
  blockquotes, strikethrough, table rows, cells of a header row), with the style role.
\<close>

definition styledOnEnter :: "kind \<Rightarrow> kind list \<Rightarrow> ColorKey option" where
  "styledOnEnter k up =
     (case k of
        Heading level \<Rightarrow>
          Some (if level = 1 then theme_Header1 else if level = 2 then theme_Header2
                else if level = 3 then theme_Header3 else if level = 4 then theme_Header4
                else if level = 5 then theme_Header5 else theme_Header6)
      | Emphasis level \<Rightarrow> Some (if level = 2 then theme_Bold else theme_Italic)
      | Link destination \<Rightarrow> Some theme_Link
      | Blockquote \<Rightarrow> Some theme_BlockQuote
      | Ext name \<Rightarrow>
          if name = ''Strikethrough'' then Some theme_Strikethrough
          else if name = ''TableRow'' then Some theme_TableBorder
          else if name = ''TableCell'' then
            (case up of
               [] \<Rightarrow> None
             | parent # _ \<Rightarrow>
                 if kindString parent = ''TableHeader'' then Some theme_TableHeader else None)
          else None
      | _ \<Rightarrow> None)"

text \<open>
  The last thing a text holds is the reset sequence, up to two newlines aside: whatever
  style was switched on before is off at the end of the text.
\<close>

definition endsWithReset :: "ThemeManager \<Rightarrow> string \<Rightarrow> bool" where
  "endsWithReset tm text =
     (suffix (Reset tm) text \<or> suffix (Reset tm @ [NL]) text \<or> suffix (Reset tm @ [NL, NL]) text)"



section \<open>Sample inputs\<close>

text \<open>A highlighter whose \<open>Highlight\<close> always fails.\<close>

definition plainHighlighter :: CodeHighlighter where
  "plainHighlighter =
     \<lparr>hl_Highlight = (\<lambda>code language. Inl ''no suitable lexer found''),
      hl_HighlightInlineCode = (\<lambda>code. Style darkTheme code theme_Code)\<rparr>"

text \<open>A document of one paragraph whose text ends in two spaces.\<close>

definition paddedParagraph :: node where
  "paddedParagraph =
     Node Document [Node Paragraph [Node (Text ''Body text.  '' False False False) []]]"

text \<open>
  The tree of the table \<open>| A | B |\<close>, \<open>|---|---|\<close>, \<open>| 1 | 2 |\<close>: the header row is a node
  of kind \<open>TableHeader\<close>, the body row a node of kind \<open>TableRow\<close>.
\<close>

definition tableDocument :: node where
  "tableDocument =
     Node Document
       [Node (Ext ''Table'')
          [Node (Ext ''TableHeader'')
             [Node (Ext ''TableCell'') [Node (Text ''A'' False False False) []],
              Node (Ext ''TableCell'') [Node (Text ''B'' False False False) []]],
           Node (Ext ''TableRow'')
             [Node (Ext ''TableCell'') [Node (Text ''1'' False False False) []],
              Node (Ext ''TableCell'') [Node (Text ''2'' False False False) []]]]]"



section \<open>Facts about splitting, joining and trimming\<close>

lemma Split_not_Nil: "Split s c \<noteq> []"
  by (induction s) (auto split: list.splits)


lemma Join_Split: "Join (Split s c) [c] = s"
proof (induction s)
  case Nil
  show ?case by simp
next
  case (Cons x xs)
  obtain l ls where sp: "Split xs c = l # ls"
    using Split_not_Nil [of xs c] by (cases "Split xs c") auto
  show ?case
  proof (cases "x = c")
    case True
    with Cons sp show ?thesis by simp
  next
    case False
    with Cons sp show ?thesis by (cases ls) auto
  qed
qed

lemma Split_lines_no_sep: "l \<in> set (Split s c) \<Longrightarrow> c \<notin> set l"
proof (induction s arbitrary: l)
  case Nil
  then show ?case by simp
next
  case (Cons x xs)
  then show ?case
    by (cases "Split xs c") (auto split: if_splits)
qed

lemma Split_append_sep: "Split (a @ c # b) c = Split a c @ Split b c"
proof (induction a)
  case Nil
  show ?case by simp
next
  case (Cons x xs)
  obtain l ls where sp: "Split xs c = l # ls"
    using Split_not_Nil [of xs c] by (cases "Split xs c") auto
  with Cons show ?case by auto
qed

lemma Split_no_sep: "c \<notin> set l \<Longrightarrow> Split l c = [l]"
  by (induction l) auto

lemma Split_Join:
  "ls \<noteq> [] \<Longrightarrow> \<forall>l \<in> set ls. c \<notin> set l \<Longrightarrow> Split (Join ls [c]) c = ls"
proof (induction ls)
  case Nil
  then show ?case by simp
next
  case (Cons l ls)
  show ?case
  proof (cases ls)
    case Nil
    with Cons.prems show ?thesis by (simp add: Split_no_sep)
  next
    case (Cons m ms)
    with Cons.IH Cons.prems have "Split (Join ls [c]) c = ls" by simp
    moreover have "Split l c = [l]" using Cons.prems by (simp add: Split_no_sep)
    ultimately show ?thesis
      using Cons by (simp add: Split_append_sep)
  qed
qed

lemma Split_append_newlines:
  "Split (a @ replicate n c) c = Split a c @ replicate n []"
proof (induction n arbitrary: a)
  case 0
  show ?case by simp
next
  case (Suc n)
  have "Split (a @ replicate (Suc n) c) c = Split (a @ c # replicate n c) c" by simp
  also have "\<dots> = Split a c @ Split (replicate n c) c" by (rule Split_append_sep)
  also have "Split (replicate n c) c = Split ([] @ replicate n c) c" by simp
  also have "\<dots> = [[]] @ replicate n []" by (simp only: Suc.IH) simp
  finally show ?case by (simp add: replicate_append_same)
qed

lemma TrimRight_subset: "set (TrimRight s cs) \<subseteq> set s"
  unfolding TrimRight_def using set_dropWhileD by fastforce

lemma TrimRight_idem: "TrimRight (TrimRight s cs) cs = TrimRight s cs"
  by (simp add: TrimRight_def dropWhile_idem)

lemma TrimRight_fixed_iff: "TrimRight s cs = s \<longleftrightarrow> s = [] \<or> last s \<notin> set cs"
proof (cases "rev s")
  case Nil
  then show ?thesis by (simp add: TrimRight_def)
next
  case (Cons x xs)
  then have s: "s = rev xs @ [x]" by (metis rev.simps(2) rev_rev_ident)
  show ?thesis
  proof (cases "x \<in> set cs")
    case True
    have le: "length (dropWhile (\<lambda>c. c \<in> set cs) xs) \<le> length xs"
      by (rule length_dropWhile_le)
    have "rev (dropWhile (\<lambda>c. c \<in> set cs) xs) \<noteq> rev xs @ [x]"
    proof
      assume "rev (dropWhile (\<lambda>c. c \<in> set cs) xs) = rev xs @ [x]"
      then have "length (rev (dropWhile (\<lambda>c. c \<in> set cs) xs)) = length (rev xs @ [x])"
        by (rule arg_cong)
      with le show False by simp
    qed
    with True s show ?thesis by (simp add: TrimRight_def)
  next
    case False
    with s show ?thesis by (simp add: TrimRight_def)
  qed
qed

lemma TrimRight_decompose: "\<exists>t. s = TrimRight s cs @ t \<and> set t \<subseteq> set cs"
proof -
  have "rev s = takeWhile (\<lambda>c. c \<in> set cs) (rev s) @ dropWhile (\<lambda>c. c \<in> set cs) (rev s)"
    by simp
  then have "s = rev (dropWhile (\<lambda>c. c \<in> set cs) (rev s)) @ rev (takeWhile (\<lambda>c. c \<in> set cs) (rev s))"
    by (metis rev_append rev_rev_ident)
  moreover have "set (rev (takeWhile (\<lambda>c. c \<in> set cs) (rev s))) \<subseteq> set cs"
    using set_takeWhileD by fastforce
  ultimately show ?thesis unfolding TrimRight_def by blast
qed

lemma TrimRight_append_cut: "set t \<subseteq> set cs \<Longrightarrow> TrimRight (s @ t) cs = TrimRight s cs"
proof -
  assume "set t \<subseteq> set cs"
  then have "dropWhile (\<lambda>c. c \<in> set cs) (rev t @ rev s) = dropWhile (\<lambda>c. c \<in> set cs) (rev s)"
    by (intro dropWhile_append2) auto
  then show ?thesis by (simp add: TrimRight_def)
qed

section \<open>Post-processing\<close>

lemma TrimTrailingWhitespace_lines:
  "Split (TrimTrailingWhitespace s) NL = map (\<lambda>line. TrimRight line [SP, TAB]) (Split s NL)"
proof -
  have "\<forall>l \<in> set (map (\<lambda>line. TrimRight line [SP, TAB]) (Split s NL)). NL \<notin> set l"
    using Split_lines_no_sep TrimRight_subset by fastforce
  then show ?thesis
    unfolding TrimTrailingWhitespace_def
    by (intro Split_Join) (simp_all add: Split_not_Nil)
qed

lemma linesTrimmed_TrimTrailingWhitespace: "linesTrimmed (TrimTrailingWhitespace s)"
  by (simp add: linesTrimmed_def TrimTrailingWhitespace_lines TrimRight_idem)

lemma TrimTrailingWhitespace_fixed: "linesTrimmed s \<Longrightarrow> TrimTrailingWhitespace s = s"
proof -
  assume "linesTrimmed s"
  then have "map (\<lambda>line. TrimRight line [SP, TAB]) (Split s NL) = Split s NL"
    by (simp add: linesTrimmed_def map_idI)
  then show ?thesis by (simp add: TrimTrailingWhitespace_def Join_Split)
qed

lemma replicate_of_set: "set t \<subseteq> {c} \<Longrightarrow> t = replicate (length t) c"
  by (induction t) auto

lemma Split_TrimRight_NL: "set (Split (TrimRight s [NL]) NL) \<subseteq> set (Split s NL)"
proof -
  obtain t where t: "s = TrimRight s [NL] @ t" "set t \<subseteq> set [NL]"
    using TrimRight_decompose by blast
  then have "t = replicate (length t) NL" by (simp add: replicate_of_set)
  with t(1) have "Split s NL = Split (TrimRight s [NL] @ replicate (length t) NL) NL" by simp
  then show ?thesis by (simp add: Split_append_newlines)
qed

lemma Split_snoc_sep: "Split (a @ [c]) c = Split a c @ [[]]"
  using Split_append_sep [of a c "[]"] by simp

lemma linesTrimmed_EnsureTrailingNewline:
  "linesTrimmed s \<Longrightarrow> linesTrimmed (EnsureTrailingNewline s)"
  using Split_TrimRight_NL [of s]
  by (auto simp: linesTrimmed_def EnsureTrailingNewline_def Split_snoc_sep TrimRight_def)

lemma EnsureTrailingNewline_idem:
  "EnsureTrailingNewline (EnsureTrailingNewline s) = EnsureTrailingNewline s"
  by (simp add: EnsureTrailingNewline_def TrimRight_append_cut TrimRight_idem)

lemma linesTrimmed_postprocessed:
  "linesTrimmed (EnsureTrailingNewline (TrimTrailingWhitespace s))"
  by (intro linesTrimmed_EnsureTrailingNewline linesTrimmed_TrimTrailingWhitespace)

text \<open>
  Claim C8. The post-processing step of \<open>RenderContent\<close>, \<open>TrimTrailingWhitespace\<close>
  followed by \<open>EnsureTrailingNewline\<close>, is idempotent: for every string, applying the
  step to its own result gives that result again.
\<close>

theorem postprocessing_idempotent:
  "EnsureTrailingNewline (TrimTrailingWhitespace
     (EnsureTrailingNewline (TrimTrailingWhitespace s)))
   = EnsureTrailingNewline (TrimTrailingWhitespace s)"
proof -
  have "TrimTrailingWhitespace (EnsureTrailingNewline (TrimTrailingWhitespace s))
        = EnsureTrailingNewline (TrimTrailingWhitespace s)"
    by (rule TrimTrailingWhitespace_fixed) (rule linesTrimmed_postprocessed)
  then show ?thesis by (simp add: EnsureTrailingNewline_idem)
qed

section \<open>The walk returns\<close>

lemma countLists_mono: "level \<le> countLists up level"
proof (induction up arbitrary: level)
  case Nil
  show ?case by simp
next
  case (Cons k up)
  show ?case using Cons [of level] Cons [of "level + 1"] by (cases k) auto
qed

lemma countLists_List: "List ord \<in> set up \<Longrightarrow> level < countLists up level"
proof (induction up arbitrary: level)
  case Nil
  then show ?case by simp
next
  case (Cons k up)
  show ?case
  proof (cases "k = List ord")
    case True
    have "level + 1 \<le> countLists up (level + 1)" by (rule countLists_mono)
    with True show ?thesis by simp
  next
    case False
    with Cons.prems have "List ord \<in> set up" by simp
    then have a: "\<And>l. l < countLists up l" by (rule Cons.IH)
    show ?thesis using a [of level] a [of "level + 1"] by (cases k) auto
  qed
qed

lemma renderNode_returns:
  assumes "k = ListItem \<longrightarrow> List True \<in> set (ancestors pos) \<or> List False \<in> set (ancestors pos)"
    and "k = Ext ''TableCell'' \<longrightarrow> ancestors pos \<noteq> []"
  shows "\<exists>out. renderNode tm hl pos (Node k cs) entering = Inr out"
proof (cases k)
  case ListItem
  with assms obtain ord where "List ord \<in> set (ancestors pos)" by auto
  then have "0 < countLists (ancestors pos) 0" by (rule countLists_List)
  with ListItem show ?thesis
    by (simp add: renderNode_def renderListItem_def Let_def)
next
  case (Ext name)
  with assms show ?thesis
    by (cases "ancestors pos")
       (simp_all add: renderNode_def renderTable_def renderTableHeader_def renderTableRow_def
          renderTableCell_def renderStrikethrough_def renderTaskCheckBox_def)
qed (simp_all add: renderNode_def renderDocument_def renderHeading_def renderParagraph_def
       renderText_def renderEmphasis_def renderCodeSpan_def renderFencedCodeBlock_def
       renderCodeBlock_def renderBlockquote_def renderList_def renderLink_def
       renderAutoLink_def renderRawHTML_def renderThematicBreak_def renderHTMLBlock_def
       Let_def split: list.splits kind.splits prod.splits)

lemma renderNode_no_Error: "renderNode tm hl pos n entering \<noteq> Inl (Error err)"
proof (cases "Kind n")
  case (Ext name)
  then show ?thesis
    by (simp add: renderNode_def renderTable_def renderTableHeader_def renderTableRow_def
          renderTableCell_def renderStrikethrough_def renderTaskCheckBox_def
          split: list.splits)
qed (simp_all add: renderNode_def renderDocument_def renderHeading_def renderParagraph_def
       renderText_def renderEmphasis_def renderCodeSpan_def renderFencedCodeBlock_def
       renderCodeBlock_def renderBlockquote_def renderList_def renderLink_def
       renderAutoLink_def renderRawHTML_def renderThematicBreak_def renderHTMLBlock_def
       renderListItem_def
       Let_def split: list.splits kind.splits prod.splits)

lemma walk_no_Error:
  "walk tm hl pos n \<noteq> Inl (Error err)"
  "walkChildren tm hl up prev cs \<noteq> Inl (Error err)"
proof (induction tm hl pos n and tm hl up prev cs rule: walk_walkChildren.induct)
  case (1 tm hl pos k cs)
  then show ?case
    using renderNode_no_Error [of tm hl pos "Node k cs" _ err]
    by (auto split: sum.splits)
next
  case (2 tm hl up prev)
  show ?case by simp
next
  case (3 tm hl up prev c rest)
  then show ?case by (auto split: sum.splits)
qed

lemma walk_returns:
  "wellPlaced (ancestors pos) n \<Longrightarrow> \<exists>out. walk tm hl pos n = Inr out"
  "\<forall>c \<in> set cs. wellPlaced up c \<Longrightarrow> \<exists>out. walkChildren tm hl up prev cs = Inr out"
proof (induction tm hl pos n and tm hl up prev cs rule: walk_walkChildren.induct)
  case (1 tm hl pos k cs)
  from "1.prems" obtain a where a: "renderNode tm hl pos (Node k cs) True = Inr a"
    using renderNode_returns [of k pos tm hl cs True] by auto
  from "1.prems" obtain c where c: "renderNode tm hl pos (Node k cs) False = Inr c"
    using renderNode_returns [of k pos tm hl cs False] by auto
  from "1.prems" have "\<forall>c \<in> set cs. wellPlaced (k # ancestors pos) c" by simp
  with "1.IH" a obtain b where "walkChildren tm hl (k # ancestors pos) False cs = Inr b"
    by blast
  with a c show ?case by simp
next
  case (2 tm hl up prev)
  show ?case by simp
next
  case (3 tm hl up prev c rest)
  let ?pos = "\<lparr>ancestors = up, hasPrevious = prev, hasNext = (rest \<noteq> [])\<rparr>"
  from "3.prems" have "wellPlaced (ancestors ?pos) c" by simp
  with "3.IH"(1) obtain a where a: "walk tm hl ?pos c = Inr a" by blast
  from "3.prems" have "\<forall>c \<in> set rest. wellPlaced up c" by simp
  with "3.IH"(2) a obtain b where "walkChildren tm hl up True rest = Inr b" by blast
  with a show ?case by simp
qed

section \<open>Shape of the output of RenderContent\<close>

lemma postprocessed_one_newline:
  "\<exists>body. EnsureTrailingNewline t = body @ [NL] \<and> (body = [] \<or> last body \<noteq> NL)"
proof -
  have "TrimRight (TrimRight t [NL]) [NL] = TrimRight t [NL]" by (rule TrimRight_idem)
  then have "TrimRight t [NL] = [] \<or> last (TrimRight t [NL]) \<notin> set [NL]"
    by (simp only: TrimRight_fixed_iff)
  then show ?thesis by (auto simp: EnsureTrailingNewline_def)
qed

lemma linesTrimmed_last:
  "linesTrimmed s \<Longrightarrow> line \<in> set (Split s NL) \<Longrightarrow> line = [] \<or> (last line \<noteq> SP \<and> last line \<noteq> TAB)"
proof -
  assume "linesTrimmed s" and "line \<in> set (Split s NL)"
  then have "TrimRight line [SP, TAB] = line" by (simp add: linesTrimmed_def)
  then have "line = [] \<or> last line \<notin> set [SP, TAB]" by (simp only: TrimRight_fixed_iff)
  then show ?thesis by auto
qed

lemma RenderContent_cases:
  "RenderContent r content hl =
     (case walk (rendererThemeManager r) hl
             \<lparr>ancestors = [], hasPrevious = False, hasNext = False\<rparr> (goldmark r content) of
        Inl e \<Rightarrow> Inl Panic
      | Inr buf \<Rightarrow> Inr (EnsureTrailingNewline (TrimTrailingWhitespace buf)))"
  using walk_no_Error(1) [of "rendererThemeManager r" hl
      "\<lparr>ancestors = [], hasPrevious = False, hasNext = False\<rparr>" "goldmark r content"]
  by (auto simp: RenderContent_def render_def Let_def split: sum.splits failure.splits)

text \<open>
  Claim C2. Whatever the document and the highlighter, a string returned by
  \<open>RenderContent\<close> has no line that ends in a space or a tab and ends with exactly one
  newline. \<open>RenderContent\<close> never returns an error, it returns a string for every well
  placed tree, and the empty document renders to the single newline.
\<close>

theorem RenderContent_output_normalized:
  "(\<forall>result. RenderContent r content hl = Inr result \<longrightarrow>
      (\<forall>line \<in> set (Split result NL). line = [] \<or> (last line \<noteq> SP \<and> last line \<noteq> TAB))
      \<and> (\<exists>body. result = body @ [NL] \<and> (body = [] \<or> last body \<noteq> NL)))
   \<and> (\<forall>err. RenderContent r content hl \<noteq> Inl (Error err))
   \<and> (wellPlaced [] (goldmark r content) \<longrightarrow> (\<exists>result. RenderContent r content hl = Inr result))
   \<and> (goldmark r content = Node Document [] \<longrightarrow> RenderContent r content hl = Inr [NL])"
proof (intro conjI allI impI)
  fix result
  assume "RenderContent r content hl = Inr result"
  then obtain buf where res: "result = EnsureTrailingNewline (TrimTrailingWhitespace buf)"
    by (auto simp: RenderContent_cases split: sum.splits)
  show "\<forall>line \<in> set (Split result NL). line = [] \<or> (last line \<noteq> SP \<and> last line \<noteq> TAB)"
    unfolding res using linesTrimmed_last [OF linesTrimmed_postprocessed] by blast
  show "\<exists>body. result = body @ [NL] \<and> (body = [] \<or> last body \<noteq> NL)"
    unfolding res by (rule postprocessed_one_newline)
next
  fix err
  show "RenderContent r content hl \<noteq> Inl (Error err)"
    by (simp add: RenderContent_cases split: sum.splits)
next
  assume "wellPlaced [] (goldmark r content)"
  then have "\<exists>out. walk (rendererThemeManager r) hl
      \<lparr>ancestors = [], hasPrevious = False, hasNext = False\<rparr> (goldmark r content) = Inr out"
    by (intro walk_returns(1)) simp
  then show "\<exists>result. RenderContent r content hl = Inr result"
    by (auto simp: RenderContent_cases)
next
  assume "goldmark r content = Node Document []"
  then show "RenderContent r content hl = Inr [NL]"
    by (simp add: RenderContent_cases renderNode_def renderDocument_def
          TrimTrailingWhitespace_def EnsureTrailingNewline_def TrimRight_def)
qed

theorem RenderContent_output_normalized_witness:
  "RenderContent \<lparr>rendererThemeManager = darkTheme, goldmark = (\<lambda>content. paddedParagraph)\<rparr>
       ''Body text.  '' plainHighlighter = Inr ''Body text.\<newline>''
   \<and> wellPlaced [] paddedParagraph
   \<and> Split ''Body text.\<newline>'' NL = [''Body text.'', []]
   \<and> last ''Body text.'' \<noteq> SP \<and> last ''Body text.'' \<noteq> TAB
   \<and> (\<exists>body. ''Body text.\<newline>'' = body @ [NL] \<and> (body = [] \<or> last body \<noteq> NL))
   \<and> RenderContent \<lparr>rendererThemeManager = darkTheme, goldmark = (\<lambda>content. Node Document [])\<rparr>
       [] plainHighlighter = Inr [NL]"
proof -
  let ?r = "\<lparr>rendererThemeManager = darkTheme, goldmark = (\<lambda>content. paddedParagraph)\<rparr>"
  let ?e = "\<lparr>rendererThemeManager = darkTheme, goldmark = (\<lambda>content. Node Document [])\<rparr>"
  have run: "RenderContent ?r ''Body text.  '' plainHighlighter = Inr ''Body text.\<newline>''"
    by code_simp
  have placed: "wellPlaced [] paddedParagraph" by code_simp
  have lines: "Split ''Body text.\<newline>'' NL = [''Body text.'', []]" by code_simp
  have empty: "goldmark ?e [] = Node Document []" by simp
  from RenderContent_output_normalized [of ?r "''Body text.  ''" plainHighlighter] run
  have shape: "(\<forall>line \<in> set (Split ''Body text.\<newline>'' NL).
                  line = [] \<or> (last line \<noteq> SP \<and> last line \<noteq> TAB))
               \<and> (\<exists>body. ''Body text.\<newline>'' = body @ [NL] \<and> (body = [] \<or> last body \<noteq> NL))"
    by blast
  then have "''Body text.'' = [] \<or> (last ''Body text.'' \<noteq> SP \<and> last ''Body text.'' \<noteq> TAB)"
    unfolding lines by simp
  then have line: "last ''Body text.'' \<noteq> SP \<and> last ''Body text.'' \<noteq> TAB" by simp
  from RenderContent_output_normalized [of ?e "[]" plainHighlighter] empty
  have "RenderContent ?e [] plainHighlighter = Inr [NL]" by blast
  with run placed lines line shape show ?thesis by blast
qed

section \<open>Paragraph spacing\<close>















section \<open>White space and letter case\<close>


lemma unicodeSpaces_prefix_free:
  "\<forall>p \<in> set unicodeSpaces. \<forall>w \<in> set unicodeSpaces. prefix p w \<longrightarrow> p = w"
  by (simp add: unicodeSpaces_def)

lemma leadingSpace_Some: "leadingSpace s = Some p \<Longrightarrow> p \<in> set unicodeSpaces \<and> prefix p s"
  by (auto simp: leadingSpace_def find_Some_iff)

lemma trailingSpace_Some: "trailingSpace s = Some p \<Longrightarrow> p \<in> set unicodeSpaces \<and> suffix p s"
  by (auto simp: trailingSpace_def find_Some_iff)

lemma leadingSpace_None_iff: "leadingSpace s = None \<longleftrightarrow> (\<forall>p \<in> set unicodeSpaces. \<not> prefix p s)"
  by (auto simp: leadingSpace_def find_None_iff)


lemma leadingSpace_append:
  assumes "w \<in> set unicodeSpaces"
  shows "leadingSpace (w @ rest) = Some w"
proof (cases "leadingSpace (w @ rest)")
  case None
  with assms show ?thesis by (auto simp: leadingSpace_None_iff)
next
  case (Some p)
  then have p: "p \<in> set unicodeSpaces" "prefix p (w @ rest)" by (auto dest: leadingSpace_Some)
  have "prefix w (w @ rest)" by simp
  with p(2) have "prefix p w \<or> prefix w p" by (rule prefix_same_cases)
  with p(1) assms have "p = w" using unicodeSpaces_prefix_free by blast
  with Some show ?thesis by simp
qed

lemma trimLeftSpace_spaces: "set ws \<subseteq> set unicodeSpaces \<Longrightarrow> trimLeftSpace (concat ws) = []"
proof (induction ws)
  case Nil
  show ?case by (simp add: trimLeftSpace.simps [of "[]"] leadingSpace_def unicodeSpaces_def)
next
  case (Cons w ws)
  then have "leadingSpace (w @ concat ws) = Some w" by (simp add: leadingSpace_append)
  with Cons show ?case by (simp add: trimLeftSpace.simps [of "w @ concat ws"])
qed

lemma trimRightSpace_Nil: "trimRightSpace [] = []"
  by (simp add: trimRightSpace.simps [of "[]"] trailingSpace_def unicodeSpaces_def)

lemma TrimSpace_spaces: "set ws \<subseteq> set unicodeSpaces \<Longrightarrow> TrimSpace (concat ws) = []"
  by (simp add: TrimSpace_def trimLeftSpace_spaces trimRightSpace_Nil)

text \<open>
  Claim C9. For every language hint and every code string that consists only of white
  space (a concatenation of encoded Unicode space runes, the empty string included),
  \<open>Highlight\<close> returns the code string as it is, with no error.
\<close>

theorem Highlight_whitespace_unchanged:
  "set ws \<subseteq> set unicodeSpaces \<Longrightarrow> Highlight unicodeLower h (concat ws) language = Inr (concat ws)"
  by (simp add: Highlight_def TrimSpace_spaces)

theorem Highlight_whitespace_unchanged_witness:
  "Highlight (map lowerASCII)
     \<lparr>themeManager = darkTheme, chromaHelper = (\<lambda>code language. Inl ''no suitable lexer found'')\<rparr>
     (concat [''   '', [NL, TAB], ''  '', [NL, CHR 0xC2, CHR 0xA0], ''   '']) ''go''
   = Inr (concat [''   '', [NL, TAB], ''  '', [NL, CHR 0xC2, CHR 0xA0], ''   ''])"
proof -
  let ?ws = "[[SP], [SP], [SP], [NL], [TAB], [SP], [SP], [NL], [CHR 0xC2, CHR 0xA0], [SP], [SP], [SP]]"
  have ws: "set ?ws \<subseteq> set unicodeSpaces" by (simp add: unicodeSpaces_def)
  have c: "concat ?ws = concat [''   '', [NL, TAB], ''  '', [NL, CHR 0xC2, CHR 0xA0], ''   '']" by simp
  from Highlight_whitespace_unchanged [OF ws] show ?thesis unfolding c .
qed

lemma trimLeftSpace_suffix: "suffix (trimLeftSpace s) s"
proof (induction s rule: trimLeftSpace.induct)
  case (1 s)
  show ?case
  proof (cases "leadingSpace s")
    case None
    then show ?thesis by (simp add: trimLeftSpace.simps [of s])
  next
    case (Some p)
    with 1 have "suffix (trimLeftSpace (drop (length p) s)) (drop (length p) s)" by simp
    then have "suffix (trimLeftSpace (drop (length p) s)) s"
      using suffix_drop suffix_order.trans by blast
    with Some show ?thesis by (simp add: trimLeftSpace.simps [of s])
  qed
qed


















section \<open>Language hints\<close>









section \<open>Code blocks\<close>

text \<open>
  Claim C3. Rendering a fenced code block never fails, whatever the code and the language
  hint: when the highlighter's \<open>Highlight\<close> returns an error, the raw text is written in
  the plain \<open>Code\<close> style and no error reaches the caller. The \<open>Highlight\<close> of package
  \<open>highlighter\<close> never returns an error either: it falls back to the same style.
\<close>

theorem fenced_code_block_never_fails:
  "(\<forall>e. renderFencedCodeBlock tm hl info lines entering \<noteq> Inl e)
   \<and> (\<forall>e. renderNode tm hl pos (Node (FencedCodeBlock info lines) cs) entering \<noteq> Inl e)
   \<and> (hl_Highlight hl (concat lines) (case info of None \<Rightarrow> [] | Some i \<Rightarrow> i) = Inl err \<longrightarrow>
        renderFencedCodeBlock tm hl info lines True
          = Inr ([NL] @ Indent (TrimRight (Style tm (concat lines) theme_Code) [NL]) 1 @ [NL, NL]))
   \<and> (\<forall>msg. Highlight unicodeLower h code language \<noteq> Inl msg)
   \<and> (TrimSpace code \<noteq> [] \<and> chromaHelper h code (normalizeLanguage unicodeLower language) = Inl err
        \<longrightarrow> Highlight unicodeLower h code language = Inr (Style (themeManager h) code theme_Code))"
  by (simp add: renderNode_def renderFencedCodeBlock_def Highlight_def Let_def split: sum.splits)

theorem fenced_code_block_never_fails_witness:
  "hl_Highlight plainHighlighter (concat [''x=1'']) ''unknownlang'' = Inl ''no suitable lexer found''
   \<and> renderFencedCodeBlock darkTheme plainHighlighter (Some ''unknownlang'') [''x=1''] True
       = Inr ([NL] @ ''  '' @ ESC # ''[38;5;208mx=1'' @ ESC # ''[0m'' @ [NL, NL])
   \<and> Highlight (map lowerASCII)
         \<lparr>themeManager = darkTheme, chromaHelper = (\<lambda>code language. Inl ''no suitable lexer found'')\<rparr>
         ''x=1'' ''unknownlang''
       = Inr (ESC # ''[38;5;208mx=1'' @ ESC # ''[0m'')"
proof -
  let ?h = "\<lparr>themeManager = darkTheme,
             chromaHelper = (\<lambda>code language. Inl ''no suitable lexer found'')\<rparr>"
  have fails: "hl_Highlight plainHighlighter (concat [''x=1''])
                 (case Some ''unknownlang'' of None \<Rightarrow> [] | Some i \<Rightarrow> i)
               = Inl ''no suitable lexer found''"
    by (simp add: plainHighlighter_def)
  have indent: "Indent (TrimRight (Style darkTheme (concat [''x=1'']) theme_Code) [NL]) 1
                = ''  '' @ ESC # ''[38;5;208mx=1'' @ ESC # ''[0m''"
    by code_simp
  have code: "TrimSpace ''x=1'' \<noteq> []" by code_simp
  have chroma: "chromaHelper ?h ''x=1'' (normalizeLanguage (map lowerASCII) ''unknownlang'')
                = Inl ''no suitable lexer found''"
    by simp
  have style: "Style (themeManager ?h) ''x=1'' theme_Code = ESC # ''[38;5;208mx=1'' @ ESC # ''[0m''"
    by code_simp
  from fenced_code_block_never_fails
         [of darkTheme plainHighlighter "Some ''unknownlang''" "[''x=1'']" True _ _
             "''no suitable lexer found''" "map lowerASCII" ?h "''x=1''" "''unknownlang''"]
       fails code chroma
  have "renderFencedCodeBlock darkTheme plainHighlighter (Some ''unknownlang'') [''x=1''] True
          = Inr ([NL] @ Indent (TrimRight (Style darkTheme (concat [''x=1'']) theme_Code) [NL]) 1
                 @ [NL, NL])
        \<and> Highlight (map lowerASCII) ?h ''x=1'' ''unknownlang''
          = Inr (Style (themeManager ?h) ''x=1'' theme_Code)"
    by blast
  with fails indent style show ?thesis by simp
qed


section \<open>Headings\<close>

text \<open>
  Claim C5. On entering a heading a newline is written first exactly when the heading has
  a previous sibling, then the prefix of the level in the style role of the level: levels
  1 to 6 have six distinct roles, and a level above 6 is rendered as level 6. On leaving,
  the style is reset and one newline is written.
\<close>

theorem heading_styled_by_level:
  "renderHeading tm pos 1 True
     = Inr ((if hasPrevious pos then [NL] else []) @ GetColor tm theme_Header1 @ ''# '')
   \<and> renderHeading tm pos 2 True
     = Inr ((if hasPrevious pos then [NL] else []) @ GetColor tm theme_Header2 @ ''## '')
   \<and> renderHeading tm pos 3 True
     = Inr ((if hasPrevious pos then [NL] else []) @ GetColor tm theme_Header3 @ ''### '')
   \<and> renderHeading tm pos 4 True
     = Inr ((if hasPrevious pos then [NL] else []) @ GetColor tm theme_Header4 @ ''#### '')
   \<and> renderHeading tm pos 5 True
     = Inr ((if hasPrevious pos then [NL] else []) @ GetColor tm theme_Header5 @ ''##### '')
   \<and> renderHeading tm pos 6 True
     = Inr ((if hasPrevious pos then [NL] else []) @ GetColor tm theme_Header6 @ ''###### '')
   \<and> (6 < level \<longrightarrow> renderHeading tm pos level True = renderHeading tm pos 6 True)
   \<and> distinct [theme_Header1, theme_Header2, theme_Header3, theme_Header4, theme_Header5,
                theme_Header6]
   \<and> renderHeading tm pos level False = Inr (Reset tm @ [NL])
   \<and> renderNode tm hl pos (Node (Heading level) cs) entering = renderHeading tm pos level entering"
  by (simp add: renderHeading_def renderNode_def StyleNoReset_def
        H1Prefix_def H2Prefix_def H3Prefix_def H4Prefix_def H5Prefix_def H6Prefix_def
        theme_Header1_def theme_Header2_def theme_Header3_def theme_Header4_def
        theme_Header5_def theme_Header6_def)

theorem heading_styled_by_level_witness:
  "renderHeading darkTheme \<lparr>ancestors = [Document], hasPrevious = True, hasNext = False\<rparr> 7 True
     = Inr ([NL] @ ESC # ''[1;91m###### '')
   \<and> renderHeading darkTheme \<lparr>ancestors = [Document], hasPrevious = False, hasNext = True\<rparr> 1 True
     = Inr (ESC # ''[1;96m# '')
   \<and> renderHeading darkTheme \<lparr>ancestors = [Document], hasPrevious = True, hasNext = False\<rparr> 7 False
     = Inr (ESC # ''[0m'' @ [NL])"
proof -
  let ?p = "\<lparr>ancestors = [Document], hasPrevious = True, hasNext = False\<rparr>"
  let ?q = "\<lparr>ancestors = [Document], hasPrevious = False, hasNext = True\<rparr>"
  have c6: "GetColor darkTheme theme_Header6 = ESC # ''[1;91m''" by code_simp
  have c1: "GetColor darkTheme theme_Header1 = ESC # ''[1;96m''" by code_simp
  have r: "Reset darkTheme = ESC # ''[0m''" by code_simp
  have lvl: "(6::int) < 7" by simp
  from heading_styled_by_level [of darkTheme ?p 7] lvl
  have "renderHeading darkTheme ?p 7 True = Inr ([NL] @ GetColor darkTheme theme_Header6 @ ''###### '')
        \<and> renderHeading darkTheme ?p 7 False = Inr (Reset darkTheme @ [NL])"
    by simp
  moreover from heading_styled_by_level [of darkTheme ?q 7]
  have "renderHeading darkTheme ?q 1 True = Inr (GetColor darkTheme theme_Header1 @ ''# '')"
    by simp
  ultimately show ?thesis using c6 c1 r by simp
qed

section \<open>List items\<close>

lemma countLists_listDepth: "countLists up level = level + int (listDepth up)"
proof (induction up arbitrary: level)
  case Nil
  show ?case by (simp add: listDepth_def)
next
  case (Cons k up)
  show ?case using Cons [of level] Cons [of "level + 1"]
    by (cases k) (simp_all add: listDepth_def isList_def)
qed

text \<open>
  Claim C4 as stated fails: the first item of an unordered list at depth 1 is not written
  as the indentation, the styled bullet and a space alone, since a no-break space comes
  first.
\<close>

theorem list_item_marker_counterexample:
  "renderListItem darkTheme \<lparr>ancestors = [List False, Document], hasPrevious = False, hasNext = True\<rparr> True
   \<noteq> Inr (Repeat ''  '' (1 - 1) @ Style darkTheme [CHR 0xE2, CHR 0x80, CHR 0xA2] theme_BulletPoint @ [SP])"
  by code_simp

text \<open>
  Claim C4, amended. On entering a list item at list-nesting depth \<open>d > 0\<close> the renderer
  writes a no-break space (U+00A0), then \<open>d - 1\<close> units of two spaces, then the styled
  marker (\<open>1.\<close> when the immediate parent is an ordered list, the bullet otherwise), then
  one space; on leaving it writes a newline.
\<close>

theorem list_item_marker:
  "0 < listDepth (ancestors pos) \<Longrightarrow>
     renderListItem tm pos True
       = Inr ([CHR 0xC2, CHR 0xA0] @ Repeat ''  '' (listDepth (ancestors pos) - 1)
              @ (if \<exists>up. ancestors pos = List True # up
                 then Style tm ''1.'' theme_OrderedList
                 else Style tm [CHR 0xE2, CHR 0x80, CHR 0xA2] theme_BulletPoint)
              @ [SP])
     \<and> renderListItem tm pos False = Inr [NL]
     \<and> renderNode tm hl pos (Node ListItem cs) entering = renderListItem tm pos entering"
proof -
  assume d: "0 < listDepth (ancestors pos)"
  have lvl: "countLists (ancestors pos) 0 - 1 = int (listDepth (ancestors pos) - 1)"
    using d by (simp add: countLists_listDepth)
  show ?thesis
    by (auto simp: renderListItem_def renderNode_def lvl Let_def split: list.splits kind.splits)
qed

theorem list_item_marker_witness:
  "renderListItem darkTheme
     \<lparr>ancestors = [List True, ListItem, List False, Document], hasPrevious = True, hasNext = False\<rparr>
     True
   = Inr ([CHR 0xC2, CHR 0xA0] @ ''  '' @ ESC # ''[1;97m1.'' @ ESC # ''[0m '')
   \<and> renderListItem darkTheme
     \<lparr>ancestors = [List False, Document], hasPrevious = False, hasNext = True\<rparr> True
   = Inr ([CHR 0xC2, CHR 0xA0] @ ESC # ''[1;97m'' @ [CHR 0xE2, CHR 0x80, CHR 0xA2] @ ESC # ''[0m '')"
proof -
  let ?p = "\<lparr>ancestors = [List True, ListItem, List False, Document],
             hasPrevious = True, hasNext = False\<rparr>"
  let ?q = "\<lparr>ancestors = [List False, Document], hasPrevious = False, hasNext = True\<rparr>"
  have dp: "0 < listDepth (ancestors ?p)" "listDepth (ancestors ?p) - 1 = 1"
    by (simp_all add: listDepth_def isList_def)
  have dq: "0 < listDepth (ancestors ?q)" "listDepth (ancestors ?q) - 1 = 0"
    by (simp_all add: listDepth_def isList_def)
  have ordered: "Style darkTheme ''1.'' theme_OrderedList = ESC # ''[1;97m1.'' @ ESC # ''[0m''"
    by code_simp
  have bullet: "Style darkTheme [CHR 0xE2, CHR 0x80, CHR 0xA2] theme_BulletPoint
                = ESC # ''[1;97m'' @ [CHR 0xE2, CHR 0x80, CHR 0xA2] @ ESC # ''[0m''"
    by code_simp
  from list_item_marker [OF dp(1), of darkTheme]
  have "renderListItem darkTheme ?p True
        = Inr ([CHR 0xC2, CHR 0xA0] @ Repeat ''  '' 1 @ Style darkTheme ''1.'' theme_OrderedList @ [SP])"
    unfolding dp(2) by simp
  moreover from list_item_marker [OF dq(1), of darkTheme]
  have "renderListItem darkTheme ?q True
        = Inr ([CHR 0xC2, CHR 0xA0] @ Repeat ''  '' 0
               @ Style darkTheme [CHR 0xE2, CHR 0x80, CHR 0xA2] theme_BulletPoint @ [SP])"
    unfolding dq(2) by simp
  ultimately show ?thesis by (simp add: ordered bullet Repeat_def)
qed

section \<open>Balanced styling\<close>

lemma walkChildren_Cons_Inr:
  assumes "walkChildren tm hl up prev (Node k cs # sibs) = Inr out"
  shows "\<exists>opened inner closed rest.
           renderNode tm hl \<lparr>ancestors = up, hasPrevious = prev, hasNext = (sibs \<noteq> [])\<rparr>
             (Node k cs) True = Inr opened
         \<and> walkChildren tm hl (k # up) False cs = Inr inner
         \<and> renderNode tm hl \<lparr>ancestors = up, hasPrevious = prev, hasNext = (sibs \<noteq> [])\<rparr>
             (Node k cs) False = Inr closed
         \<and> walkChildren tm hl up True sibs = Inr rest
         \<and> out = opened @ inner @ closed @ rest"
  using assms by (auto split: sum.splits)

lemma styled_enter:
  assumes "styledOnEnter k (ancestors pos) = Some role"
  shows "\<exists>before after. renderNode tm hl pos (Node k cs) True = Inr (before @ GetColor tm role @ after)"
proof (cases k)
  case (Heading level)
  with assms have "renderNode tm hl pos (Node k cs) True
      = Inr ((if hasPrevious pos then [NL] else []) @ GetColor tm role
             @ (if level = 1 then H1Prefix else if level = 2 then H2Prefix
                else if level = 3 then H3Prefix else if level = 4 then H4Prefix
                else if level = 5 then H5Prefix else H6Prefix))"
    by (auto simp: styledOnEnter_def renderNode_def renderHeading_def StyleNoReset_def)
  then show ?thesis by blast
next
  case (Emphasis level)
  with assms have "renderNode tm hl pos (Node k cs) True = Inr ([] @ GetColor tm role @ [])"
    by (auto simp: styledOnEnter_def renderNode_def renderEmphasis_def)
  then show ?thesis by blast
next
  case (Link d)
  with assms have "renderNode tm hl pos (Node k cs) True = Inr ([] @ GetColor tm role @ [])"
    by (auto simp: styledOnEnter_def renderNode_def renderLink_def)
  then show ?thesis by blast
next
  case Blockquote
  with assms have "renderNode tm hl pos (Node k cs) True
      = Inr ([NL] @ GetColor tm role @ [CHR 0xE2, CHR 0x94, CHR 0x82, SP])"
    by (auto simp: styledOnEnter_def renderNode_def renderBlockquote_def)
  then show ?thesis by blast
next
  case (Ext name)
  with assms have
    "renderNode tm hl pos (Node k cs) True = Inr ([] @ GetColor tm role @ [])
     \<or> renderNode tm hl pos (Node k cs) True
         = Inr ([] @ GetColor tm role @ [CHR 0xE2, CHR 0x94, CHR 0x82])
     \<or> renderNode tm hl pos (Node k cs) True = Inr ([SP] @ GetColor tm role @ [])"
    by (auto simp: styledOnEnter_def renderNode_def renderStrikethrough_def renderTableRow_def
          renderTableCell_def split: if_splits list.splits)
  then show ?thesis by blast
qed (use assms in \<open>simp_all add: styledOnEnter_def\<close>)

lemma styled_exit:
  assumes "styledOnEnter k (ancestors pos) = Some role"
  shows "renderNode tm hl pos (Node k cs) False
           = Inr ((case k of Link destination \<Rightarrow> '' ('' @ destination @ '')'' | _ \<Rightarrow> [])
                  @ Reset tm
                  @ (case k of
                       Heading level \<Rightarrow> [NL]
                     | Blockquote \<Rightarrow> [NL, NL]
                     | Ext name \<Rightarrow>
                         if name = ''TableRow'' then [NL]
                         else if name = ''TableCell'' then
                           Repeat [SP] 14 @ GetColor tm theme_TableBorder
                           @ [CHR 0xE2, CHR 0x94, CHR 0x82]
                         else []
                     | _ \<Rightarrow> []))"
proof (cases k)
  case (Heading level)
  then show ?thesis by (simp add: renderNode_def renderHeading_def)
next
  case (Emphasis level)
  then show ?thesis by (simp add: renderNode_def renderEmphasis_def)
next
  case (Link d)
  then show ?thesis by (simp add: renderNode_def renderLink_def)
next
  case Blockquote
  then show ?thesis by (simp add: renderNode_def renderBlockquote_def)
next
  case (Ext name)
  with assms show ?thesis
    by (auto simp: styledOnEnter_def renderNode_def renderStrikethrough_def renderTableRow_def
          renderTableCell_def split: if_splits list.splits)
qed (use assms in \<open>simp_all add: styledOnEnter_def\<close>)

lemma styled_exit_ends:
  assumes "styledOnEnter k (ancestors pos) = Some role" and "k \<noteq> Ext ''TableCell''"
  shows "\<exists>closed. renderNode tm hl pos (Node k cs) False = Inr closed \<and> endsWithReset tm closed"
proof (cases k)
  case (Heading level)
  then show ?thesis by (simp add: renderNode_def renderHeading_def endsWithReset_def)
next
  case (Emphasis level)
  then show ?thesis by (simp add: renderNode_def renderEmphasis_def endsWithReset_def)
next
  case (Link d)
  then show ?thesis
    by (simp add: renderNode_def renderLink_def endsWithReset_def suffix_def)
next
  case Blockquote
  then show ?thesis by (simp add: renderNode_def renderBlockquote_def endsWithReset_def)
next
  case (Ext name)
  with assms show ?thesis
    by (auto simp: styledOnEnter_def renderNode_def renderStrikethrough_def renderTableRow_def
          endsWithReset_def split: if_splits list.splits)
qed (use assms in \<open>simp_all add: styledOnEnter_def\<close>)

lemma endsWithReset_append: "endsWithReset tm closed \<Longrightarrow> endsWithReset tm (before @ closed)"
  by (auto simp: endsWithReset_def suffix_def)

lemma walk_ends_with_reset:
  assumes "styledOnEnter k (ancestors pos) = Some role" and "k \<noteq> Ext ''TableCell''"
    and "walk tm hl pos (Node k cs) = Inr out"
  shows "endsWithReset tm out"
proof -
  from styled_exit_ends [OF assms(1,2)] obtain closed where
    c: "renderNode tm hl pos (Node k cs) False = Inr closed" "endsWithReset tm closed" by blast
  from assms(3) c(1) obtain opened inner where "out = opened @ inner @ closed"
    by (auto split: sum.splits)
  then have "out = (opened @ inner) @ closed" by simp
  with c(2) show ?thesis by (simp only: endsWithReset_append)
qed

text \<open>
  Claim C6 as stated fails: a cell of a header row switches the header style on when it
  is entered, and the text written for the cell does not end with the reset sequence:
  after its reset the cell writes the padding and the border glyph in the border colour,
  which is still on where the next sibling begins.
\<close>

theorem style_reset_on_exit_counterexample:
  "styledOnEnter (Ext ''TableCell'') [Ext ''TableHeader'', Ext ''Table'', Document]
     = Some theme_TableHeader
   \<and> walk darkTheme plainHighlighter
        \<lparr>ancestors = [Ext ''TableHeader'', Ext ''Table'', Document], hasPrevious = False,
         hasNext = True\<rparr>
        (Node (Ext ''TableCell'') [Node (Text ''A'' False False False) []])
      = Inr ('' '' @ ESC # ''[1;97mA'' @ ESC # ''[0m'' @ Repeat '' '' 14
             @ ESC # ''[38;5;244m'' @ [CHR 0xE2, CHR 0x94, CHR 0x82])
   \<and> \<not> endsWithReset darkTheme
         ('' '' @ ESC # ''[1;97mA'' @ ESC # ''[0m'' @ Repeat '' '' 14
          @ ESC # ''[38;5;244m'' @ [CHR 0xE2, CHR 0x94, CHR 0x82])"
  by code_simp

text \<open>
  Claim C6, amended. For a node whose entering handler switches a style on, the leaving
  handler writes the reset sequence: first of all, or right after the destination for a
  link. In the output of a run of siblings the text of the leaving handler comes before
  everything the following siblings write. For every such node but a table cell, only
  the newlines of the block follow the reset, so the text written for the node ends with
  the reset sequence; a table cell goes on to write the padding and the border glyph in
  the border colour.
\<close>

theorem style_reset_on_exit:
  assumes "styledOnEnter k up = Some role"
    and "pos = \<lparr>ancestors = up, hasPrevious = prev, hasNext = (sibs \<noteq> [])\<rparr>"
  shows "(\<exists>before after.
            renderNode tm hl pos (Node k cs) True = Inr (before @ GetColor tm role @ after))
       \<and> renderNode tm hl pos (Node k cs) False
            = Inr ((case k of Link destination \<Rightarrow> '' ('' @ destination @ '')'' | _ \<Rightarrow> [])
                   @ Reset tm
                   @ (case k of
                        Heading level \<Rightarrow> [NL]
                      | Blockquote \<Rightarrow> [NL, NL]
                      | Ext name \<Rightarrow>
                          if name = ''TableRow'' then [NL]
                          else if name = ''TableCell'' then
                            Repeat [SP] 14 @ GetColor tm theme_TableBorder
                            @ [CHR 0xE2, CHR 0x94, CHR 0x82]
                          else []
                      | _ \<Rightarrow> []))
       \<and> (\<forall>out. walkChildren tm hl up prev (Node k cs # sibs) = Inr out \<longrightarrow>
            (\<exists>opened inner closed rest.
               renderNode tm hl pos (Node k cs) True = Inr opened
             \<and> walkChildren tm hl (k # up) False cs = Inr inner
             \<and> renderNode tm hl pos (Node k cs) False = Inr closed
             \<and> walkChildren tm hl up True sibs = Inr rest
             \<and> out = opened @ inner @ closed @ rest))
       \<and> (k \<noteq> Ext ''TableCell'' \<longrightarrow>
            (\<forall>out. walk tm hl pos (Node k cs) = Inr out \<longrightarrow> endsWithReset tm out))"
proof -
  have r: "styledOnEnter k (ancestors pos) = Some role" using assms by simp
  have 4: "k \<noteq> Ext ''TableCell'' \<longrightarrow>
            (\<forall>out. walk tm hl pos (Node k cs) = Inr out \<longrightarrow> endsWithReset tm out)"
    using walk_ends_with_reset [OF r] by blast
  show ?thesis
    using styled_enter [OF r] styled_exit [OF r] walkChildren_Cons_Inr [of tm hl up prev k cs sibs] 4
    unfolding assms(2) by blast
qed

theorem style_reset_on_exit_witness:
  "styledOnEnter (Emphasis 2) [Paragraph, Document] = Some theme_Bold
   \<and> walkChildren darkTheme plainHighlighter [Paragraph, Document] False
       [Node (Emphasis 2) [Node (Text ''x'' False False False) []],
        Node (Text ''y'' False False False) []]
     = Inr (ESC # ''[1m'' @ ''x'' @ ESC # ''[0m'' @ ''y'')
   \<and> renderNode darkTheme plainHighlighter
        \<lparr>ancestors = [Paragraph, Document], hasPrevious = False, hasNext = True\<rparr>
        (Node (Emphasis 2) [Node (Text ''x'' False False False) []]) False
      = Inr (Reset darkTheme)
   \<and> endsWithReset darkTheme (ESC # ''[1m'' @ ''x'' @ ESC # ''[0m'')"
proof -
  let ?up = "[Paragraph, Document]"
  let ?x = "[Node (Text ''x'' False False False) []]"
  let ?sibs = "[Node (Text ''y'' False False False) []]"
  let ?pos = "\<lparr>ancestors = ?up, hasPrevious = False, hasNext = True\<rparr>"
  have role: "styledOnEnter (Emphasis 2) ?up = Some theme_Bold" by code_simp
  have pos: "?pos = \<lparr>ancestors = ?up, hasPrevious = False, hasNext = (?sibs \<noteq> [])\<rparr>" by simp
  have kind: "Emphasis 2 \<noteq> Ext ''TableCell''" by simp
  have out: "walkChildren darkTheme plainHighlighter ?up False (Node (Emphasis 2) ?x # ?sibs)
     = Inr (ESC # ''[1m'' @ ''x'' @ ESC # ''[0m'' @ ''y'')"
    by code_simp
  have w: "walk darkTheme plainHighlighter ?pos (Node (Emphasis 2) ?x)
     = Inr (ESC # ''[1m'' @ ''x'' @ ESC # ''[0m'')"
    by code_simp
  note inst = style_reset_on_exit [OF role pos, of darkTheme plainHighlighter ?x]
  from inst have "renderNode darkTheme plainHighlighter ?pos (Node (Emphasis 2) ?x) False
          = Inr (Reset darkTheme)"
    by simp
  moreover from inst kind w have "endsWithReset darkTheme (ESC # ''[1m'' @ ''x'' @ ESC # ''[0m'')"
    by blast
  ultimately show ?thesis using role out by blast
qed

section \<open>Tables\<close>

text \<open>
  Claim C1, on the code. A header row is a node of kind \<open>TableHeader\<close>, which
  \<open>renderNode\<close> sends to \<open>renderTableHeader\<close>: nothing is written on entering or on
  leaving it, and the separator of \<open>renderTableRow\<close> is only reached for kind
  \<open>TableRow\<close>, where it is not drawn. The table with header \<open>A | B\<close> and body row
  \<open>1 | 2\<close> renders with no separator line, and with the body row on the line of the
  header cells.
\<close>

theorem table_header_row_output:
  "renderNode tm hl pos (Node (Ext ''TableHeader'') cells) True = Inr []
   \<and> renderNode tm hl pos (Node (Ext ''TableHeader'') cells) False = Inr []
   \<and> renderNode tm hl pos (Node (Ext ''TableRow'') cells) False = Inr (Reset tm @ [NL])
   \<and> RenderContent \<lparr>rendererThemeManager = darkTheme, goldmark = (\<lambda>content. tableDocument)\<rparr>
        ''| A | B |\<newline>|---|---|\<newline>| 1 | 2 |'' plainHighlighter
      = Inr ([NL]
             @ '' '' @ ESC # ''[1;97mA'' @ ESC # ''[0m'' @ Repeat '' '' 14
             @ ESC # ''[38;5;244m'' @ [CHR 0xE2, CHR 0x94, CHR 0x82]
             @ '' '' @ ESC # ''[1;97mB'' @ ESC # ''[0m'' @ Repeat '' '' 14
             @ ESC # ''[38;5;244m'' @ [CHR 0xE2, CHR 0x94, CHR 0x82]
             @ ESC # ''[38;5;244m'' @ [CHR 0xE2, CHR 0x94, CHR 0x82]
             @ '' 1'' @ Repeat '' '' 14 @ ESC # ''[38;5;244m'' @ [CHR 0xE2, CHR 0x94, CHR 0x82]
             @ '' 2'' @ Repeat '' '' 14 @ ESC # ''[38;5;244m'' @ [CHR 0xE2, CHR 0x94, CHR 0x82]
             @ ESC # ''[0m'' @ [NL])"
proof -
  have "renderNode tm hl pos (Node (Ext ''TableHeader'') cells) True = Inr []"
    by (simp add: renderNode_def renderTableHeader_def)
  moreover have "renderNode tm hl pos (Node (Ext ''TableHeader'') cells) False = Inr []"
    by (simp add: renderNode_def renderTableHeader_def)
  moreover have "renderNode tm hl pos (Node (Ext ''TableRow'') cells) False = Inr (Reset tm @ [NL])"
    by (simp add: renderNode_def renderTableRow_def)
  moreover have "RenderContent \<lparr>rendererThemeManager = darkTheme, goldmark = (\<lambda>content. tableDocument)\<rparr>
        ''| A | B |\<newline>|---|---|\<newline>| 1 | 2 |'' plainHighlighter
      = Inr ([NL]
             @ '' '' @ ESC # ''[1;97mA'' @ ESC # ''[0m'' @ Repeat '' '' 14
             @ ESC # ''[38;5;244m'' @ [CHR 0xE2, CHR 0x94, CHR 0x82]
             @ '' '' @ ESC # ''[1;97mB'' @ ESC # ''[0m'' @ Repeat '' '' 14
             @ ESC # ''[38;5;244m'' @ [CHR 0xE2, CHR 0x94, CHR 0x82]
             @ ESC # ''[38;5;244m'' @ [CHR 0xE2, CHR 0x94, CHR 0x82]
             @ '' 1'' @ Repeat '' '' 14 @ ESC # ''[38;5;244m'' @ [CHR 0xE2, CHR 0x94, CHR 0x82]
             @ '' 2'' @ Repeat '' '' 14 @ ESC # ''[38;5;244m'' @ [CHR 0xE2, CHR 0x94, CHR 0x82]
             @ ESC # ''[0m'' @ [NL])"
    by code_simp
  ultimately show ?thesis by blast
qed


end
